theory Spec2Isabelle
  imports Main
begin

section \<open>Data model of the session controller (frontend/src/App.js)\<close>

text \<open>
  The component \<open>App\<close> keeps its state in React hooks. The model is a record with one
  field per \<open>useState\<close>/\<open>useRef\<close> hook, explicit state passing for every setter, and two
  further fields for what leaves the component: \<open>effects\<close>, the log of observable effects
  (toasts, console output, speech, HTTP requests), and \<open>pending\<close>, the HTTP requests that
  are in flight.

  JavaScript strings are modelled as HOL strings, that is, sequences of code units below
  256 (the Latin-1 part of UTF-16). Numbers that the backend sends as balances are
  modelled as integers, as the data model of the specification has them.
\<close>

datatype stage_name = StAuth | StVerifyOtp | StRegister | StLogin | StDashboard

text \<open>The \<open>user\<close> object of the register and login responses: \<open>{id, name, phone, balance}\<close>.\<close>

record user_data =
  u_id :: string
  u_name :: string
  u_phone :: string
  u_balance :: int

datatype role_name = RoleUser | RoleAssistant

record chat_message =
  role :: role_name
  content :: string

record txn =
  txn_id :: string
  txn_type :: string
  txn_amount :: int
  txn_description :: string
  txn_timestamp :: string

text \<open>
  The body of a successful verify-otp response and of a successful chat response. The
  body of a register or login response is its \<open>user\<close> field, a \<open>user_data option\<close>:
  \<open>None\<close> is a 2xx body whose \<open>user\<close> is null or missing.
\<close>

record verify_data =
  success :: bool
  user_exists :: bool

record chat_data =
  response :: string
  user_balance :: int

text \<open>
  An awaited axios call either rejects (transport failure or non-2xx status: the
  \<open>catch\<close> branch runs) or resolves with the response body.
\<close>

datatype 'a outcome = Failed | Ok 'a

text \<open>The six requests of the component, with the payload that each call site builds.\<close>

datatype request =
    PostSendOtp string
  | PostVerifyOtp string string
  | PostRegister string string string
  | PostLogin string string
  | PostChat string string string
  | GetTransactions string nat

datatype effect =
    ToastSuccess string
  | ToastError string
  | ConsoleLog string
  | ConsoleError string
  | SynthCancel
  | SynthSpeak string
  | RecognitionStart
  | RecognitionStop
  | Http request

record app =
  stage :: stage_name
  phone :: string
  otp :: string
  pin :: string
  name :: string
  user :: "user_data option"
  isListening :: bool
  transcript :: string
  messages :: "chat_message list"
  inputMessage :: string
  balance :: int
  transactions :: "txn list"
  sessionId :: string
  recognitionRef :: bool
  synthRef :: bool
  effects :: "effect list"
  pending :: "request list"

section \<open>String helpers of the JavaScript runtime\<close>

text \<open>
  Decimal rendering of an integer inside a template literal. JavaScript writes all the
  digits only for magnitudes below \<open>10^21\<close> and switches to exponent form from there
  on; \<open>show_int\<close> is the rendering below that bound. It is used for the session id
  and for the spoken welcome text only.
\<close>

definition digit_char :: "nat \<Rightarrow> char" where
  "digit_char d = char_of (48 + d)"

function show_nat :: "nat \<Rightarrow> string" where
  "show_nat n = (if n < 10 then [digit_char n] else show_nat (n div 10) @ [digit_char (n mod 10)])"
  by pat_completeness auto
termination
  by (relation "measure (\<lambda>n. n)") auto

definition show_int :: "int \<Rightarrow> string" where
  "show_int i = (if i < 0 then CHR ''-'' # show_nat (nat (- i)) else show_nat (nat i))"

text \<open>
  \<open>String.prototype.toLowerCase\<close> on code units below 256: A to Z and the accented
  capitals U+00C0 to U+00DE (without the multiplication sign U+00D7) move up by 32.
\<close>

definition lower_char :: "char \<Rightarrow> char" where
  "lower_char c =
     (let n = (of_char c :: nat)
      in if (65 \<le> n \<and> n \<le> 90) \<or> (192 \<le> n \<and> n \<le> 222 \<and> n \<noteq> 215)
         then char_of (n + 32) else c)"

definition toLowerCase :: "string \<Rightarrow> string" where
  "toLowerCase s = map lower_char s"

text \<open>
  \<open>String.prototype.trim\<close> removes leading and trailing white space and line
  terminators; below 256 these are TAB, LF, VT, FF, CR, SPACE and NBSP.
\<close>

definition isWhiteSpace :: "char \<Rightarrow> bool" where
  "isWhiteSpace c = ((of_char c :: nat) \<in> {9, 10, 11, 12, 13, 32, 160})"

definition trim :: "string \<Rightarrow> string" where
  "trim s = rev (dropWhile isWhiteSpace (rev (dropWhile isWhiteSpace s)))"

text \<open>\<open>String.prototype.includes\<close>: the needle occurs at some position of the string.\<close>

fun starts_with :: "string \<Rightarrow> string \<Rightarrow> bool" where
  "starts_with s [] = True"
| "starts_with [] (c # cs) = False"
| "starts_with (x # xs) (c # cs) = (x = c \<and> starts_with xs cs)"

fun includes_str :: "string \<Rightarrow> string \<Rightarrow> bool" where
  "includes_str [] needle = starts_with [] needle"
| "includes_str (x # xs) needle = (starts_with (x # xs) needle \<or> includes_str xs needle)"

section \<open>The component\<close>

subsection \<open>Initial state\<close>

text \<open>
  \<open>now\<close> is the value of \<open>Date.now()\<close> at the first render; \<open>rec\<close> says whether the
  browser has \<open>webkitSpeechRecognition\<close>, \<open>syn\<close> whether it has \<open>speechSynthesis\<close>.
\<close>

definition App :: "nat \<Rightarrow> bool \<Rightarrow> bool \<Rightarrow> app" where
  "App now rec syn =
     \<lparr> stage = StAuth, phone = [], otp = [], pin = [], name = [], user = None,
       isListening = False, transcript = [], messages = [], inputMessage = [],
       balance = 0, transactions = [], sessionId = ''session_'' @ show_nat now,
       recognitionRef = rec, synthRef = syn, effects = [], pending = [] \<rparr>"

subsection \<open>Effects\<close>

definition toast_success :: "string \<Rightarrow> app \<Rightarrow> app" where
  "toast_success text s = s\<lparr>effects := effects s @ [ToastSuccess text]\<rparr>"

definition toast_error :: "string \<Rightarrow> app \<Rightarrow> app" where
  "toast_error text s = s\<lparr>effects := effects s @ [ToastError text]\<rparr>"

definition console_log :: "string \<Rightarrow> app \<Rightarrow> app" where
  "console_log text s = s\<lparr>effects := effects s @ [ConsoleLog text]\<rparr>"

definition console_error :: "string \<Rightarrow> app \<Rightarrow> app" where
  "console_error text s = s\<lparr>effects := effects s @ [ConsoleError text]\<rparr>"

text \<open>An axios call up to its \<open>await\<close>: the request leaves and is in flight.\<close>

definition axios :: "request \<Rightarrow> app \<Rightarrow> app" where
  "axios r s = s\<lparr>effects := effects s @ [Http r], pending := pending s @ [r]\<rparr>"

definition speak :: "string \<Rightarrow> app \<Rightarrow> app" where
  "speak text s =
     (if synthRef s then s\<lparr>effects := effects s @ [SynthCancel, SynthSpeak text]\<rparr> else s)"

definition toggleListening :: "app \<Rightarrow> app" where
  "toggleListening s =
     (if isListening s
      then (if recognitionRef s then s\<lparr>effects := effects s @ [RecognitionStop]\<rparr> else s)
             \<lparr>isListening := False\<rparr>
      else (if recognitionRef s then s\<lparr>effects := effects s @ [RecognitionStart]\<rparr> else s)
             \<lparr>isListening := True\<rparr>)"

subsection \<open>Speech recognition callbacks\<close>

text \<open>
  \<open>onresult\<close> receives the results from \<open>event.resultIndex\<close> on, each with its
  \<open>isFinal\<close> flag and the transcript of its first alternative.
\<close>

definition finalTranscript :: "(bool \<times> string) list \<Rightarrow> string" where
  "finalTranscript results = concat (map snd (filter fst results))"

definition onresult :: "(bool \<times> string) list \<Rightarrow> app \<Rightarrow> app" where
  "onresult results s =
     (if finalTranscript results \<noteq> []
      then s\<lparr>transcript := finalTranscript results, inputMessage := finalTranscript results\<rparr>
      else s)"

definition onerror :: "string \<Rightarrow> app \<Rightarrow> app" where
  "onerror err s = (console_error ''Speech recognition error:'' s)\<lparr>isListening := False\<rparr>"

definition onend :: "app \<Rightarrow> app" where
  "onend s = s\<lparr>isListening := False\<rparr>"

subsection \<open>The asynchronous operations\<close>

text \<open>
  Every operation is an \<open>async\<close> function with one \<open>await\<close>. The function named like
  the source function is its synchronous part, run when the handler is called, up to
  the \<open>await\<close>; \<open>_resume\<close> is the rest of the body, run when the request settles, on the
  state of that moment. Values that the closure captured at the call (\<open>inputMessage\<close>
  and \<open>user\<close> in \<open>sendMessage\<close>) are arguments of \<open>_resume\<close>.
\<close>

definition sendOTP :: "app \<Rightarrow> app" where
  "sendOTP s = axios (PostSendOtp (phone s)) s"

definition sendOTP_resume :: "string outcome \<Rightarrow> app \<Rightarrow> app" where
  "sendOTP_resume out s =
     (case out of
        Ok mock_otp \<Rightarrow> (toast_success (''OTP sent: '' @ mock_otp) s)\<lparr>stage := StVerifyOtp\<rparr>
      | Failed \<Rightarrow> toast_error ''Failed to send OTP'' s)"

definition verifyOTP :: "app \<Rightarrow> app" where
  "verifyOTP s = axios (PostVerifyOtp (phone s) (otp s)) s"

definition verifyOTP_resume :: "verify_data outcome \<Rightarrow> app \<Rightarrow> app" where
  "verifyOTP_resume out s =
     (case out of
        Ok d \<Rightarrow>
          (let s1 = console_log ''OTP Verify Response:'' s
           in if success d
              then (let s2 = toast_success ''OTP verified!'' s1
                    in if user_exists d then s2\<lparr>stage := StLogin\<rparr>
                       else s2\<lparr>stage := StRegister\<rparr>)
              else toast_error ''Invalid OTP'' s1)
      | Failed \<Rightarrow> toast_error ''Invalid OTP'' (console_error ''OTP verification error:'' s))"

definition loadDashboard :: "string \<Rightarrow> app \<Rightarrow> app" where
  "loadDashboard userId s = axios (GetTransactions userId 5) s"

definition loadDashboard_resume :: "txn list outcome \<Rightarrow> app \<Rightarrow> app" where
  "loadDashboard_resume out s =
     (case out of
        Ok txns \<Rightarrow> s\<lparr>transactions := txns\<rparr>
      | Failed \<Rightarrow> console_error ''Failed to load transactions'' s)"

definition register :: "app \<Rightarrow> app" where
  "register s = axios (PostRegister (phone s) (name s) (pin s)) s"

text \<open>
  In \<open>register\<close> and \<open>login\<close> the first statement after the \<open>await\<close> is
  \<open>setUser(response.data.user)\<close>, and the next one reads \<open>response.data.user.balance\<close>.
  On a 2xx body without a user the setter has already run, with null, when that read
  throws and the \<open>catch\<close> branch shows its toast.
\<close>

definition register_resume :: "user_data option outcome \<Rightarrow> app \<Rightarrow> app" where
  "register_resume out s =
     (case out of
        Ok (Some u) \<Rightarrow>
          loadDashboard (u_id u)
            (speak ''Welcome to VoiceBank AI. Your account has been created successfully.''
              (toast_success ''Account created successfully!''
                (s\<lparr>user := Some u, balance := u_balance u, stage := StDashboard\<rparr>)))
      | Ok None \<Rightarrow> toast_error ''Registration failed'' (s\<lparr>user := None\<rparr>)
      | Failed \<Rightarrow> toast_error ''Registration failed'' s)"

definition login :: "app \<Rightarrow> app" where
  "login s = axios (PostLogin (phone s) (pin s)) s"

definition login_resume :: "user_data option outcome \<Rightarrow> app \<Rightarrow> app" where
  "login_resume out s =
     (case out of
        Ok (Some u) \<Rightarrow>
          loadDashboard (u_id u)
            (speak (''Welcome back '' @ u_name u @ ''. Your current balance is ''
                      @ show_int (u_balance u) @ '' rupees.'')
              (toast_success ''Login successful!''
                (s\<lparr>user := Some u, balance := u_balance u, stage := StDashboard\<rparr>)))
      | Ok None \<Rightarrow> toast_error ''Invalid credentials'' (s\<lparr>user := None\<rparr>)
      | Failed \<Rightarrow> toast_error ''Invalid credentials'' s)"

text \<open>The \<open>catch\<close> branch of \<open>sendMessage\<close>.\<close>

definition sendMessage_catch :: "app \<Rightarrow> app" where
  "sendMessage_catch s =
     (let s1 = toast_error ''Failed to send message'' s
      in s1\<lparr>messages := messages s1 @
             [\<lparr>role = RoleAssistant,
               content = ''Sorry, I encountered an error. Please try again.''\<rparr>]\<rparr>)"

text \<open>
  Building the request body reads \<open>user.id\<close> inside the \<open>try\<close> block: with \<open>user\<close>
  null this throws before any request leaves, and the \<open>catch\<close> branch runs at once.
\<close>

definition sendMessage :: "app \<Rightarrow> app" where
  "sendMessage s =
     (if trim (inputMessage s) = [] then s
      else
        (let s1 = s\<lparr>messages := messages s @ [\<lparr>role = RoleUser, content = inputMessage s\<rparr>],
                    inputMessage := [], transcript := []\<rparr>
         in case user s of
              None \<Rightarrow> sendMessage_catch s1
            | Some u \<Rightarrow> axios (PostChat (inputMessage s) (u_id u) (sessionId s)) s1))"

definition sendMessage_resume :: "string \<Rightarrow> string \<Rightarrow> chat_data outcome \<Rightarrow> app \<Rightarrow> app" where
  "sendMessage_resume inputMessage0 userId out s =
     (case out of
        Ok d \<Rightarrow>
          (let s1 = speak (response d)
                      (s\<lparr>messages := messages s @ [\<lparr>role = RoleAssistant, content = response d\<rparr>],
                         balance := user_balance d\<rparr>)
           in if includes_str (toLowerCase inputMessage0) ''transaction''
                 \<or> includes_str (toLowerCase inputMessage0) ''transfer''
              then loadDashboard userId s1 else s1)
      | Failed \<Rightarrow> sendMessage_catch s)"

text \<open>The \<open>onClick\<close> handler of the logout button.\<close>

definition logout :: "app \<Rightarrow> app" where
  "logout s = s\<lparr>stage := StAuth, user := None, messages := []\<rparr>"

section \<open>Events\<close>

text \<open>
  The component reacts to user input, to speech recognition callbacks and to the
  settling of requests. A handler can only be triggered where its control is rendered:
  \<open>renderAuth\<close> shows the phone form at stage \<open>auth\<close>, the OTP form at \<open>verify-otp\<close>,
  the name and PIN form at \<open>register\<close>, the PIN form at \<open>login\<close>, and
  \<open>renderDashboard\<close> (logout, chat input, microphone, send) is shown at \<open>dashboard\<close>.
  A request settles at any later moment, whatever the stage is by then; nothing
  cancels a request in flight.
\<close>

datatype reply =
    OtpReply "string outcome"
  | VerifyReply "verify_data outcome"
  | UserReply "user_data option outcome"
  | ChatReply "chat_data outcome"
  | TxnReply "txn list outcome"

text \<open>The continuation of a request, for a reply of the shape its endpoint returns.\<close>

fun settle :: "request \<Rightarrow> reply \<Rightarrow> app \<Rightarrow> app option" where
  "settle (PostSendOtp p) (OtpReply out) s = Some (sendOTP_resume out s)"
| "settle (PostVerifyOtp p c) (VerifyReply out) s = Some (verifyOTP_resume out s)"
| "settle (PostRegister p n c) (UserReply out) s = Some (register_resume out s)"
| "settle (PostLogin p c) (UserReply out) s = Some (login_resume out s)"
| "settle (PostChat m userId sid) (ChatReply out) s = Some (sendMessage_resume m userId out s)"
| "settle (GetTransactions userId n) (TxnReply out) s = Some (loadDashboard_resume out s)"
| "settle r rep s = None"

datatype event =
    ChangePhone string
  | ChangeOtp string
  | ChangeName string
  | ChangePin string
  | ChangeInput string
  | ClickSendOtp
  | ClickVerifyOtp
  | ClickRegister
  | ClickLogin
  | ClickSend
  | ClickMic
  | ClickLogout
  | SpeechResult "(bool \<times> string) list"
  | SpeechError string
  | SpeechEnd
  | Settled nat reply

text \<open>
  \<open>fire e s\<close> is \<open>None\<close> when the event cannot happen in \<open>s\<close>: its control is not
  rendered, the typed text exceeds the \<open>maxLength\<close> of its field, there is no
  recognition object, or there is no such request in flight. \<open>ClickSend\<close> also stands
  for the Enter key in the chat input. \<open>Settled i rep\<close> settles the \<open>i\<close>-th request in
  flight with \<open>rep\<close>.
\<close>

definition guarded :: "bool \<Rightarrow> app \<Rightarrow> app option" where
  "guarded b s = (if b then Some s else None)"

fun fire :: "event \<Rightarrow> app \<Rightarrow> app option" where
  "fire (ChangePhone v) s = guarded (stage s = StAuth) (s\<lparr>phone := v\<rparr>)"
| "fire (ChangeOtp v) s = guarded (stage s = StVerifyOtp \<and> length v \<le> 6) (s\<lparr>otp := v\<rparr>)"
| "fire (ChangeName v) s = guarded (stage s = StRegister) (s\<lparr>name := v\<rparr>)"
| "fire (ChangePin v) s =
     guarded ((stage s = StRegister \<or> stage s = StLogin) \<and> length v \<le> 4) (s\<lparr>pin := v\<rparr>)"
| "fire (ChangeInput v) s = guarded (stage s = StDashboard) (s\<lparr>inputMessage := v\<rparr>)"
| "fire ClickSendOtp s = guarded (stage s = StAuth) (sendOTP s)"
| "fire ClickVerifyOtp s = guarded (stage s = StVerifyOtp) (verifyOTP s)"
| "fire ClickRegister s = guarded (stage s = StRegister) (register s)"
| "fire ClickLogin s = guarded (stage s = StLogin) (login s)"
| "fire ClickSend s = guarded (stage s = StDashboard) (sendMessage s)"
| "fire ClickMic s = guarded (stage s = StDashboard) (toggleListening s)"
| "fire ClickLogout s = guarded (stage s = StDashboard) (logout s)"
| "fire (SpeechResult results) s = guarded (recognitionRef s) (onresult results s)"
| "fire (SpeechError err) s = guarded (recognitionRef s) (onerror err s)"
| "fire SpeechEnd s = guarded (recognitionRef s) (onend s)"
| "fire (Settled i rep) s =
     (if i < length (pending s)
      then settle (pending s ! i) rep (s\<lparr>pending := take i (pending s) @ drop (Suc i) (pending s)\<rparr>)
      else None)"

fun run :: "event list \<Rightarrow> app \<Rightarrow> app option" where
  "run [] s = Some s"
| "run (e # es) s = (case fire e s of None \<Rightarrow> None | Some s' \<Rightarrow> run es s')"

text \<open>
  The four authentication requests and the clicks that submit them. A run has no
  overlap when no authentication request is submitted while another one is in flight.
\<close>

fun auth_request :: "request \<Rightarrow> bool" where
  "auth_request (PostSendOtp p) = True"
| "auth_request (PostVerifyOtp p c) = True"
| "auth_request (PostRegister p n c) = True"
| "auth_request (PostLogin p c) = True"
| "auth_request (PostChat m userId sid) = False"
| "auth_request (GetTransactions userId n) = False"

definition auth_click :: "event \<Rightarrow> bool" where
  "auth_click e = (e = ClickSendOtp \<or> e = ClickVerifyOtp \<or> e = ClickRegister \<or> e = ClickLogin)"

definition overlapping :: "event \<Rightarrow> app \<Rightarrow> bool" where
  "overlapping e s = (auth_click e \<and> list_ex auth_request (pending s))"

fun no_overlap :: "event list \<Rightarrow> app \<Rightarrow> bool" where
  "no_overlap [] s = True"
| "no_overlap (e # es) s =
     (\<not> overlapping e s \<and> (case fire e s of None \<Rightarrow> True | Some s' \<Rightarrow> no_overlap es s'))"

text \<open>The notifications shown to the user are the toasts of the effect log.\<close>

fun is_toast :: "effect \<Rightarrow> bool" where
  "is_toast (ToastSuccess t) = True"
| "is_toast (ToastError t) = True"
| "is_toast e = False"

definition notifications :: "app \<Rightarrow> effect list" where
  "notifications s = filter is_toast (effects s)"

section \<open>Example data\<close>

definition demo_user :: user_data where
  "demo_user = \<lparr>u_id = ''u1'', u_name = ''Asha'', u_phone = ''9876543210'', u_balance = 5000\<rparr>"

text \<open>The dashboard right after Asha has logged in, with \<open>text\<close> typed into the chat input.\<close>

definition demo_dashboard :: "string \<Rightarrow> app" where
  "demo_dashboard text = (login_resume (Ok (Some demo_user)) (App 0 True True))\<lparr>inputMessage := text\<rparr>"

text \<open>
  A session in which every request settles before the next one is submitted:
  registration, the first load of the transactions, one chat turn.
\<close>

definition demo_run :: "event list" where
  "demo_run =
     [ChangePhone ''9876543210'', ClickSendOtp,
      Settled 0 (OtpReply (Ok ''123456'')),
      ChangeOtp ''123456'', ClickVerifyOtp,
      Settled 0 (VerifyReply (Ok \<lparr>success = True, user_exists = False\<rparr>)),
      ChangeName ''Asha'', ChangePin ''1234'', ClickRegister,
      Settled 0 (UserReply (Ok (Some demo_user))),
      Settled 0 (TxnReply (Ok [])),
      ChangeInput ''hello'', ClickSend,
      Settled 0 (ChatReply (Ok \<lparr>response = ''Hi Asha'', user_balance = 5000\<rparr>))]"

text \<open>
  A session in which the send-otp button is pressed twice and the reply to the second
  request arrives only after the login has completed.
\<close>

definition stale_run :: "event list" where
  "stale_run =
     [ChangePhone ''9876543210'', ClickSendOtp, ClickSendOtp,
      Settled 0 (OtpReply (Ok ''123456'')),
      ChangeOtp ''123456'', ClickVerifyOtp,
      Settled 1 (VerifyReply (Ok \<lparr>success = True, user_exists = True\<rparr>)),
      ChangePin ''1234'', ClickLogin,
      Settled 1 (UserReply (Ok (Some demo_user))),
      Settled 0 (OtpReply (Ok ''123456''))]"

text \<open>
  A session in which the login button is pressed twice: the first reply carries the
  user, the second one is a 2xx body without a user and arrives on the dashboard.
\<close>

definition double_login_run :: "event list" where
  "double_login_run =
     [ChangePhone ''9876543210'', ClickSendOtp,
      Settled 0 (OtpReply (Ok ''123456'')),
      ChangeOtp ''123456'', ClickVerifyOtp,
      Settled 0 (VerifyReply (Ok \<lparr>success = True, user_exists = True\<rparr>)),
      ChangePin ''1234'', ClickLogin, ClickLogin,
      Settled 0 (UserReply (Ok (Some demo_user))),
      Settled 0 (UserReply (Ok None))]"

section \<open>Invariants of the session\<close>

definition inv2 :: "app \<Rightarrow> bool" where
  "inv2 s = ((user s \<noteq> None \<longleftrightarrow> stage s = StDashboard)
            \<and> (stage s = StDashboard \<longrightarrow> filter auth_request (pending s) = [])
            \<and> length (filter auth_request (pending s)) \<le> 1)"

named_theorems app_defs

declare toast_success_def [app_defs] toast_error_def [app_defs] console_log_def [app_defs]
  console_error_def [app_defs] axios_def [app_defs] speak_def [app_defs]
  sendOTP_def [app_defs] sendOTP_resume_def [app_defs] verifyOTP_def [app_defs]
  verifyOTP_resume_def [app_defs] loadDashboard_def [app_defs] loadDashboard_resume_def [app_defs]
  register_def [app_defs] register_resume_def [app_defs] login_def [app_defs]
  login_resume_def [app_defs] sendMessage_catch_def [app_defs] sendMessage_def [app_defs]
  sendMessage_resume_def [app_defs] logout_def [app_defs] toggleListening_def [app_defs]
  onresult_def [app_defs] onerror_def [app_defs] onend_def [app_defs]

section \<open>Facts about the string helpers\<close>

lemma starts_with_iff: "starts_with h n \<longleftrightarrow> (\<exists>q. h = n @ q)"
  by (induction h n rule: starts_with.induct) auto

lemma includes_str_iff: "includes_str h n \<longleftrightarrow> (\<exists>p q. h = p @ n @ q)"
proof (induction h)
  case Nil
  show ?case by (cases n) auto
next
  case (Cons x xs)
  have "(\<exists>p q. x # xs = p @ n @ q) \<longleftrightarrow> (\<exists>q. x # xs = n @ q) \<or> (\<exists>p q. xs = p @ n @ q)"
  proof
    assume "\<exists>p q. x # xs = p @ n @ q"
    then obtain p q where pq: "x # xs = p @ n @ q" by blast
    show "(\<exists>q. x # xs = n @ q) \<or> (\<exists>p q. xs = p @ n @ q)"
    proof (cases p)
      case Nil
      with pq show ?thesis by auto
    next
      case (Cons y ys)
      with pq have "xs = ys @ n @ q" by simp
      then show ?thesis by blast
    qed
  next
    assume "(\<exists>q. x # xs = n @ q) \<or> (\<exists>p q. xs = p @ n @ q)"
    then show "\<exists>p q. x # xs = p @ n @ q"
    proof
      assume "\<exists>q. x # xs = n @ q"
      then obtain q where "x # xs = [] @ n @ q" by auto
      then show ?thesis by blast
    next
      assume "\<exists>p q. xs = p @ n @ q"
      then obtain p q where "xs = p @ n @ q" by blast
      then have "x # xs = (x # p) @ n @ q" by simp
      then show ?thesis by blast
    qed
  qed
  with Cons show ?case by (simp add: starts_with_iff)
qed

lemma map_contains_iff:
  "(\<exists>p q. map f m = p @ k @ q) \<longleftrightarrow> (\<exists>p w q. m = p @ w @ q \<and> map f w = k)"
proof
  assume "\<exists>p q. map f m = p @ k @ q"
  then obtain p q where pq: "map f m = p @ k @ q" by blast
  let ?w = "take (length k) (drop (length p) m)"
  have "map f ?w = take (length k) (drop (length p) (map f m))"
    by (simp only: take_map drop_map)
  also have "\<dots> = k" by (simp only: pq) simp
  finally have w: "map f ?w = k" .
  have "m = take (length p) m @ ?w @ drop (length k) (drop (length p) m)"
    by (simp only: append_take_drop_id)
  with w show "\<exists>p w q. m = p @ w @ q \<and> map f w = k" by blast
next
  assume "\<exists>p w q. m = p @ w @ q \<and> map f w = k"
  then obtain p w q where "m = p @ w @ q" and "map f w = k" by blast
  then have "map f m = map f p @ k @ map f q" by simp
  then show "\<exists>p q. map f m = p @ k @ q" by blast
qed

lemma lower_char_letter:
  assumes "97 \<le> (of_char k :: nat)" and "(of_char k :: nat) \<le> 122"
  shows "lower_char c = k \<longleftrightarrow> (c = k \<or> of_char c + 32 = (of_char k :: nat))"
proof (cases "(65 \<le> (of_char c :: nat) \<and> (of_char c :: nat) \<le> 90)
              \<or> (192 \<le> (of_char c :: nat) \<and> (of_char c :: nat) \<le> 222
                  \<and> (of_char c :: nat) \<noteq> 215)")
  case True
  then have l: "lower_char c = char_of ((of_char c :: nat) + 32)"
    by (simp only: lower_char_def Let_def if_True)
  have "(of_char c :: nat) + 32 < 256" using True by arith
  then have m: "((of_char c :: nat) + 32) mod 256 = of_char c + 32" by (rule mod_less)
  have "char_of ((of_char c :: nat) + 32) = k \<longleftrightarrow> ((of_char c :: nat) + 32) mod 256 = of_char k"
    by (simp only: char_of_eq_iff take_bit_eq_mod) simp
  with l m have a: "lower_char c = k \<longleftrightarrow> (of_char c :: nat) + 32 = of_char k" by simp
  have "(of_char c :: nat) \<noteq> of_char k" using True assms by arith
  then have "c \<noteq> k" by auto
  with a show ?thesis by blast
next
  case False
  then have l: "lower_char c = c" by (simp only: lower_char_def Let_def if_False)
  have "(of_char c :: nat) + 32 \<noteq> of_char k" using False assms by arith
  then show ?thesis by (simp add: l)
qed

lemma toLowerCase_word_iff:
  assumes "\<forall>d \<in> set k. 97 \<le> (of_char d :: nat) \<and> (of_char d :: nat) \<le> 122"
  shows "toLowerCase w = k
         \<longleftrightarrow> list_all2 (\<lambda>c d. c = d \<or> of_char c + 32 = (of_char d :: nat)) w k"
proof -
  have "toLowerCase w = k \<longleftrightarrow> list_all2 (\<lambda>c d. lower_char c = d) w k"
    by (simp add: toLowerCase_def list_all2_conv_all_nth list_eq_iff_nth_eq)
  also have "\<dots> \<longleftrightarrow> list_all2 (\<lambda>c d. c = d \<or> of_char c + 32 = (of_char d :: nat)) w k"
    using assms by (auto simp: list_all2_conv_all_nth lower_char_letter)
  finally show ?thesis .
qed

lemma toLowerCase_contains_iff:
  assumes "\<forall>d \<in> set k. 97 \<le> (of_char d :: nat) \<and> (of_char d :: nat) \<le> 122"
  shows "(\<exists>p q. toLowerCase m = p @ k @ q)
         \<longleftrightarrow> (\<exists>p w q. m = p @ w @ q
               \<and> list_all2 (\<lambda>c d. c = d \<or> of_char c + 32 = (of_char d :: nat)) w k)"
proof -
  have "(\<exists>p q. toLowerCase m = p @ k @ q) \<longleftrightarrow> (\<exists>p w q. m = p @ w @ q \<and> toLowerCase w = k)"
    unfolding toLowerCase_def by (rule map_contains_iff)
  then show ?thesis by (simp add: toLowerCase_word_iff [OF assms])
qed

lemma keywords_lower_case:
  "\<forall>d \<in> set ''transaction''. 97 \<le> (of_char d :: nat) \<and> (of_char d :: nat) \<le> 122"
  "\<forall>d \<in> set ''transfer''. 97 \<le> (of_char d :: nat) \<and> (of_char d :: nat) \<le> 122"
  by simp_all

lemma dropWhile_all_iff: "(\<forall>x \<in> set (dropWhile P xs). P x) \<longleftrightarrow> (\<forall>x \<in> set xs. P x)"
proof
  assume all: "\<forall>x \<in> set (dropWhile P xs). P x"
  have "dropWhile P xs = []"
  proof (rule ccontr)
    assume ne: "dropWhile P xs \<noteq> []"
    then have "\<not> P (hd (dropWhile P xs))" by (rule hd_dropWhile)
    moreover from ne have "hd (dropWhile P xs) \<in> set (dropWhile P xs)" by simp
    ultimately show False using all by blast
  qed
  then show "\<forall>x \<in> set xs. P x" by (simp add: dropWhile_eq_Nil_conv)
next
  assume "\<forall>x \<in> set xs. P x"
  then show "\<forall>x \<in> set (dropWhile P xs). P x" by (blast dest: set_dropWhileD)
qed

lemma trim_empty_iff: "trim s = [] \<longleftrightarrow> (\<forall>c \<in> set s. isWhiteSpace c)"
  by (simp add: trim_def dropWhile_eq_Nil_conv dropWhile_all_iff)

section \<open>What each handler and continuation changes\<close>

lemma filter_remove_nth:
  assumes "i < length xs"
  shows "filter P xs = filter P (take i xs) @ filter P [xs ! i] @ filter P (drop (Suc i) xs)"
proof -
  from id_take_nth_drop [OF assms]
  have "filter P xs = filter P (take i xs @ xs ! i # drop (Suc i) xs)" by (rule arg_cong)
  then show ?thesis by simp
qed

lemma filter_remove_hit:
  assumes "i < length xs" and "P (xs ! i)" and "length (filter P xs) \<le> 1"
  shows "filter P (take i xs @ drop (Suc i) xs) = []"
  using assms(2,3) filter_remove_nth [OF assms(1), of P] by simp

lemma filter_remove_miss:
  assumes "i < length xs" and "\<not> P (xs ! i)"
  shows "filter P (take i xs @ drop (Suc i) xs) = filter P xs"
  using assms(2) filter_remove_nth [OF assms(1), of P] by simp

lemma sendOTP_frame:
  "stage (sendOTP s) = stage s" "user (sendOTP s) = user s"
  "pending (sendOTP s) = pending s @ [PostSendOtp (phone s)]"
  by (simp_all add: sendOTP_def axios_def)

lemma verifyOTP_frame:
  "stage (verifyOTP s) = stage s" "user (verifyOTP s) = user s"
  "pending (verifyOTP s) = pending s @ [PostVerifyOtp (phone s) (otp s)]"
  by (simp_all add: verifyOTP_def axios_def)

lemma register_frame:
  "stage (register s) = stage s" "user (register s) = user s"
  "pending (register s) = pending s @ [PostRegister (phone s) (name s) (pin s)]"
  by (simp_all add: register_def axios_def)

lemma login_frame:
  "stage (login s) = stage s" "user (login s) = user s"
  "pending (login s) = pending s @ [PostLogin (phone s) (pin s)]"
  by (simp_all add: login_def axios_def)

lemma sendMessage_frame:
  "stage (sendMessage s) = stage s" "user (sendMessage s) = user s"
  "filter auth_request (pending (sendMessage s)) = filter auth_request (pending s)"
  by (simp_all add: sendMessage_def sendMessage_catch_def toast_error_def axios_def Let_def
        split: option.split)

lemma callbacks_frame:
  "stage (toggleListening s) = stage s" "user (toggleListening s) = user s"
  "pending (toggleListening s) = pending s"
  "stage (onresult rs s) = stage s" "user (onresult rs s) = user s"
  "pending (onresult rs s) = pending s"
  "stage (onerror err s) = stage s" "user (onerror err s) = user s"
  "pending (onerror err s) = pending s"
  "stage (onend s) = stage s" "user (onend s) = user s" "pending (onend s) = pending s"
  by (simp_all add: toggleListening_def onresult_def onerror_def onend_def console_error_def)

lemma logout_frame:
  "stage (logout s) = StAuth" "user (logout s) = None" "pending (logout s) = pending s"
  by (simp_all add: logout_def)

lemma sendOTP_resume_frame:
  "stage (sendOTP_resume out s) = (case out of Failed \<Rightarrow> stage s | Ok m \<Rightarrow> StVerifyOtp)"
  "user (sendOTP_resume out s) = user s" "pending (sendOTP_resume out s) = pending s"
  by (simp_all add: sendOTP_resume_def toast_success_def toast_error_def split: outcome.split)

lemma verifyOTP_resume_frame:
  "stage (verifyOTP_resume out s) =
     (case out of Failed \<Rightarrow> stage s
      | Ok d \<Rightarrow> if success d then (if user_exists d then StLogin else StRegister) else stage s)"
  "user (verifyOTP_resume out s) = user s" "pending (verifyOTP_resume out s) = pending s"
  by (simp_all add: verifyOTP_resume_def toast_success_def toast_error_def console_log_def
        console_error_def Let_def split: outcome.split)

lemma register_resume_frame:
  "stage (register_resume out s) =
     (case out of Failed \<Rightarrow> stage s | Ok None \<Rightarrow> stage s | Ok (Some u) \<Rightarrow> StDashboard)"
  "user (register_resume out s) = (case out of Failed \<Rightarrow> user s | Ok b \<Rightarrow> b)"
  "pending (register_resume out s) =
     (case out of Failed \<Rightarrow> pending s | Ok None \<Rightarrow> pending s
      | Ok (Some u) \<Rightarrow> pending s @ [GetTransactions (u_id u) 5])"
  by (simp_all add: register_resume_def loadDashboard_def axios_def speak_def toast_success_def
        toast_error_def split: outcome.split option.split)

lemma login_resume_frame:
  "stage (login_resume out s) =
     (case out of Failed \<Rightarrow> stage s | Ok None \<Rightarrow> stage s | Ok (Some u) \<Rightarrow> StDashboard)"
  "user (login_resume out s) = (case out of Failed \<Rightarrow> user s | Ok b \<Rightarrow> b)"
  "pending (login_resume out s) =
     (case out of Failed \<Rightarrow> pending s | Ok None \<Rightarrow> pending s
      | Ok (Some u) \<Rightarrow> pending s @ [GetTransactions (u_id u) 5])"
  by (simp_all add: login_resume_def loadDashboard_def axios_def speak_def toast_success_def
        toast_error_def split: outcome.split option.split)

lemma sendMessage_resume_frame:
  "stage (sendMessage_resume m userId out s) = stage s"
  "user (sendMessage_resume m userId out s) = user s"
  "filter auth_request (pending (sendMessage_resume m userId out s)) =
     filter auth_request (pending s)"
  by (simp_all add: sendMessage_resume_def sendMessage_catch_def loadDashboard_def axios_def
        speak_def toast_error_def Let_def split: outcome.split)

lemma loadDashboard_resume_frame:
  "stage (loadDashboard_resume out s) = stage s" "user (loadDashboard_resume out s) = user s"
  "pending (loadDashboard_resume out s) = pending s"
  by (simp_all add: loadDashboard_resume_def console_error_def split: outcome.split)

lemmas resume_frames = sendOTP_resume_frame verifyOTP_resume_frame register_resume_frame
  login_resume_frame sendMessage_resume_frame loadDashboard_resume_frame

lemmas handler_frames = sendOTP_frame verifyOTP_frame register_frame login_frame
  sendMessage_frame callbacks_frame logout_frame

lemma settle_auth:
  assumes "settle r rep s = Some s'" and "auth_request r"
    and "filter auth_request (pending s) = []" and "user s = None" and "stage s \<noteq> StDashboard"
  shows "inv2 s'"
  using assms
  by (cases "(r, rep, s)" rule: settle.cases)
     (auto simp: inv2_def resume_frames split: outcome.splits option.splits if_splits)

lemma settle_other:
  assumes "settle r rep s = Some s'" and "\<not> auth_request r"
  shows "stage s' = stage s \<and> user s' = user s
         \<and> filter auth_request (pending s') = filter auth_request (pending s)"
  using assms
  by (cases "(r, rep, s)" rule: settle.cases) (auto simp: resume_frames)

lemma fire_inv2:
  assumes f: "fire e s = Some s'" and no: "\<not> overlapping e s" and inv: "inv2 s"
  shows "inv2 s'"
proof (cases e)
  case (Settled i rep)
  let ?rest = "take i (pending s) @ drop (Suc i) (pending s)"
  from f Settled have lt: "i < length (pending s)"
    and st: "settle (pending s ! i) rep (s\<lparr>pending := ?rest\<rparr>) = Some s'"
    by (auto split: if_splits)
  show ?thesis
  proof (cases "auth_request (pending s ! i)")
    case True
    from inv have le: "length (filter auth_request (pending s)) \<le> 1" by (simp add: inv2_def)
    have rest: "filter auth_request ?rest = []" by (rule filter_remove_hit [OF lt True le])
    from lt True have "filter auth_request (pending s) \<noteq> []"
      by (auto simp: filter_empty_conv)
    with inv have nd: "stage s \<noteq> StDashboard" and nu: "user s = None"
      by (auto simp: inv2_def)
    show ?thesis
      by (rule settle_auth [OF st True]) (use rest nd nu in simp_all)
  next
    case False
    from settle_other [OF st False] filter_remove_miss [of i "pending s" auth_request, OF lt False] inv
    show ?thesis by (simp add: inv2_def)
  qed
next
  case ClickSendOtp
  with f no inv show ?thesis
    by (auto simp: inv2_def overlapping_def auth_click_def guarded_def handler_frames list_ex_iff
             filter_empty_conv split: if_splits)
next
  case ClickVerifyOtp
  with f no inv show ?thesis
    by (auto simp: inv2_def overlapping_def auth_click_def guarded_def handler_frames list_ex_iff
             filter_empty_conv split: if_splits)
next
  case ClickRegister
  with f no inv show ?thesis
    by (auto simp: inv2_def overlapping_def auth_click_def guarded_def handler_frames list_ex_iff
             filter_empty_conv split: if_splits)
next
  case ClickLogin
  with f no inv show ?thesis
    by (auto simp: inv2_def overlapping_def auth_click_def guarded_def handler_frames list_ex_iff
             filter_empty_conv split: if_splits)
qed (use f inv in \<open>auto simp: inv2_def guarded_def handler_frames split: if_splits\<close>)

lemma run_inv2: "run es s = Some s' \<Longrightarrow> no_overlap es s \<Longrightarrow> inv2 s \<Longrightarrow> inv2 s'"
proof (induction es arbitrary: s)
  case Nil
  then show ?case by simp
next
  case (Cons e es)
  then show ?case by (auto split: option.splits dest: fire_inv2)
qed

section \<open>OTP verification\<close>

text \<open>
  C1: when the verify-otp response has \<open>success = true\<close>, the stage becomes \<open>login\<close>
  if \<open>user_exists = true\<close> and \<open>register\<close> if \<open>user_exists = false\<close>; in neither case
  is the user field set, neither when the request is sent nor when it settles.
\<close>

theorem verifyOTP_accepted:
  assumes "success d"
  shows "stage (verifyOTP_resume (Ok d) s) = (if user_exists d then StLogin else StRegister)
         \<and> user (verifyOTP_resume (Ok d) s) = user s
         \<and> user (verifyOTP s) = user s"
  using assms by (simp add: verifyOTP_resume_frame verifyOTP_frame)

text \<open>An instance of C1: a new user is sent to the registration form.\<close>

theorem verifyOTP_accepted_witness:
  "success \<lparr>success = True, user_exists = False\<rparr>
   \<and> stage (verifyOTP_resume (Ok \<lparr>success = True, user_exists = False\<rparr>) (App 0 True True))
       = StRegister
   \<and> user (verifyOTP_resume (Ok \<lparr>success = True, user_exists = False\<rparr>) (App 0 True True))
       = None"
  using verifyOTP_accepted [of "\<lparr>success = True, user_exists = False\<rparr>" "App 0 True True"]
  by (simp add: App_def)

text \<open>
  C3: when the verify-otp response has \<open>success = false\<close>, or the request fails, the
  whole attempt leaves stage, user, balance, messages and transactions as they are:
  submitting the code only sends the request, and the continuation only logs and shows
  the error. So an attempt made at stage \<open>verify-otp\<close> ends at stage \<open>verify-otp\<close>, with
  the other four fields as before, and a retry is possible.
\<close>

theorem verifyOTP_rejected:
  assumes "case out of Failed \<Rightarrow> True | Ok d \<Rightarrow> \<not> success d"
  shows "stage (verifyOTP_resume out s) = stage s
         \<and> user (verifyOTP_resume out s) = user s
         \<and> balance (verifyOTP_resume out s) = balance s
         \<and> messages (verifyOTP_resume out s) = messages s
         \<and> transactions (verifyOTP_resume out s) = transactions s
         \<and> stage (verifyOTP s0) = stage s0
         \<and> user (verifyOTP s0) = user s0
         \<and> balance (verifyOTP s0) = balance s0
         \<and> messages (verifyOTP s0) = messages s0
         \<and> transactions (verifyOTP s0) = transactions s0
         \<and> (stage s0 = StVerifyOtp \<longrightarrow>
              map_option stage
                (run [ClickVerifyOtp, Settled (length (pending s0)) (VerifyReply out)] s0)
                = Some StVerifyOtp
              \<and> map_option user
                (run [ClickVerifyOtp, Settled (length (pending s0)) (VerifyReply out)] s0)
                = Some (user s0)
              \<and> map_option balance
                (run [ClickVerifyOtp, Settled (length (pending s0)) (VerifyReply out)] s0)
                = Some (balance s0)
              \<and> map_option messages
                (run [ClickVerifyOtp, Settled (length (pending s0)) (VerifyReply out)] s0)
                = Some (messages s0)
              \<and> map_option transactions
                (run [ClickVerifyOtp, Settled (length (pending s0)) (VerifyReply out)] s0)
                = Some (transactions s0))"
proof -
  have resume: "stage (verifyOTP_resume out t) = stage t \<and> user (verifyOTP_resume out t) = user t
      \<and> balance (verifyOTP_resume out t) = balance t
      \<and> messages (verifyOTP_resume out t) = messages t
      \<and> transactions (verifyOTP_resume out t) = transactions t" for t
    using assms
    by (cases out)
       (simp_all add: verifyOTP_resume_def toast_error_def console_error_def console_log_def
          Let_def)
  have submit: "stage (verifyOTP s0) = stage s0 \<and> user (verifyOTP s0) = user s0
      \<and> balance (verifyOTP s0) = balance s0 \<and> messages (verifyOTP s0) = messages s0
      \<and> transactions (verifyOTP s0) = transactions s0
      \<and> pending (verifyOTP s0) = pending s0 @ [PostVerifyOtp (phone s0) (otp s0)]"
    by (simp add: verifyOTP_def axios_def)
  have whole: "run [ClickVerifyOtp, Settled (length (pending s0)) (VerifyReply out)] s0
      = Some (verifyOTP_resume out ((verifyOTP s0)\<lparr>pending := pending s0\<rparr>))"
    if "stage s0 = StVerifyOtp"
    using that submit by (simp add: guarded_def)
  show ?thesis
    using resume [of s] submit resume [of "(verifyOTP s0)\<lparr>pending := pending s0\<rparr>"] whole
    by simp
qed

text \<open>An instance of C3: a rejected code at stage \<open>verify-otp\<close>, from click to reply.\<close>

theorem verifyOTP_rejected_witness:
  "(case Ok \<lparr>success = False, user_exists = True\<rparr> of Failed \<Rightarrow> True | Ok d \<Rightarrow> \<not> success d)
   \<and> stage ((App 0 True True)\<lparr>stage := StVerifyOtp, balance := 7\<rparr>) = StVerifyOtp
   \<and> map_option stage
        (run [ClickVerifyOtp, Settled 0 (VerifyReply (Ok \<lparr>success = False, user_exists = True\<rparr>))]
           ((App 0 True True)\<lparr>stage := StVerifyOtp, balance := 7\<rparr>)) = Some StVerifyOtp
   \<and> map_option user
        (run [ClickVerifyOtp, Settled 0 (VerifyReply (Ok \<lparr>success = False, user_exists = True\<rparr>))]
           ((App 0 True True)\<lparr>stage := StVerifyOtp, balance := 7\<rparr>)) = Some None
   \<and> map_option balance
        (run [ClickVerifyOtp, Settled 0 (VerifyReply (Ok \<lparr>success = False, user_exists = True\<rparr>))]
           ((App 0 True True)\<lparr>stage := StVerifyOtp, balance := 7\<rparr>)) = Some 7"
  using verifyOTP_rejected [of "Ok \<lparr>success = False, user_exists = True\<rparr>" _
      "(App 0 True True)\<lparr>stage := StVerifyOtp, balance := 7\<rparr>"]
  by (simp add: App_def)

section \<open>Login and registration\<close>

text \<open>
  C4: after a successful login and after a successful registration the stored balance
  is the \<open>balance\<close> of the user in the response, the stage is \<open>dashboard\<close>, and a
  transaction-list request for that user's id with limit 5 has been put in flight.
\<close>

theorem login_register_dashboard:
  "balance (login_resume (Ok (Some u)) s) = u_balance u
   \<and> stage (login_resume (Ok (Some u)) s) = StDashboard
   \<and> pending (login_resume (Ok (Some u)) s) = pending s @ [GetTransactions (u_id u) 5]
   \<and> balance (register_resume (Ok (Some u)) s) = u_balance u
   \<and> stage (register_resume (Ok (Some u)) s) = StDashboard
   \<and> pending (register_resume (Ok (Some u)) s) = pending s @ [GetTransactions (u_id u) 5]"
  by (simp add: app_defs)

text \<open>An instance of C4: Asha logs in on a fresh page.\<close>

theorem login_register_dashboard_witness:
  "balance (login_resume (Ok (Some demo_user)) (App 0 True True)) = 5000
   \<and> stage (login_resume (Ok (Some demo_user)) (App 0 True True)) = StDashboard
   \<and> pending (login_resume (Ok (Some demo_user)) (App 0 True True)) = [GetTransactions ''u1'' 5]"
  using login_register_dashboard [of demo_user "App 0 True True"]
  by (simp add: App_def demo_user_def)

section \<open>Chat\<close>

text \<open>
  C2, as stated, fails: it promises a user entry for every non-empty input, but the
  guard of \<open>sendMessage\<close> trims the input first. With a single space typed into the
  chat input no entry is appended and no request leaves.
\<close>

theorem sendMessage_space_counterexample:
  "inputMessage (demo_dashboard '' '') \<noteq> []
   \<and> messages (sendMessage (demo_dashboard '' '')) = messages (demo_dashboard '' '')
   \<and> pending (sendMessage (demo_dashboard '' '')) = pending (demo_dashboard '' '')"
proof -
  have "trim '' '' = []" by code_simp
  then show ?thesis by (simp add: demo_dashboard_def sendMessage_def)
qed

text \<open>
  C2, amended: for every input message that is non-empty after trimming white space,
  \<open>sendMessage\<close> appends exactly one user entry with the input text at once and sends
  the chat request; when the request settles exactly one assistant entry is appended:
  on success its content is the returned response text and the balance becomes the
  returned \<open>user_balance\<close>, on failure its content is the fixed fallback text. Nothing
  removes the user's entry. (With no user object the request cannot be built, and the
  fallback entry follows the user's entry at once.)
\<close>

theorem sendMessage_nonblank:
  assumes "trim (inputMessage s) \<noteq> []"
  shows "(case user s of
            Some u \<Rightarrow>
              messages (sendMessage s) = messages s @ [\<lparr>role = RoleUser, content = inputMessage s\<rparr>]
              \<and> pending (sendMessage s) = pending s @ [PostChat (inputMessage s) (u_id u) (sessionId s)]
          | None \<Rightarrow>
              messages (sendMessage s) = messages s @
                [\<lparr>role = RoleUser, content = inputMessage s\<rparr>,
                 \<lparr>role = RoleAssistant, content = ''Sorry, I encountered an error. Please try again.''\<rparr>]
              \<and> pending (sendMessage s) = pending s)
         \<and> messages (sendMessage_resume m userId (Ok d) t) =
             messages t @ [\<lparr>role = RoleAssistant, content = response d\<rparr>]
         \<and> balance (sendMessage_resume m userId (Ok d) t) = user_balance d
         \<and> messages (sendMessage_resume m userId Failed t) =
             messages t @ [\<lparr>role = RoleAssistant, content = ''Sorry, I encountered an error. Please try again.''\<rparr>]"
  using assms by (simp add: app_defs Let_def split: option.split)

text \<open>An instance of amended C2: Asha types "hi" on her dashboard.\<close>

theorem sendMessage_nonblank_witness:
  "trim (inputMessage (demo_dashboard ''hi'')) \<noteq> []
   \<and> messages (sendMessage (demo_dashboard ''hi'')) = [\<lparr>role = RoleUser, content = ''hi''\<rparr>]
   \<and> messages (sendMessage_resume ''hi'' ''u1'' (Ok \<lparr>response = ''Hello'', user_balance = 4000\<rparr>)
        (sendMessage (demo_dashboard ''hi'')))
       = [\<lparr>role = RoleUser, content = ''hi''\<rparr>, \<lparr>role = RoleAssistant, content = ''Hello''\<rparr>]"
proof -
  have t: "trim ''hi'' = ''hi''" by code_simp
  have u: "user (demo_dashboard ''hi'') = Some demo_user"
    and m: "messages (demo_dashboard ''hi'') = []"
    and i: "inputMessage (demo_dashboard ''hi'') = ''hi''"
    by (simp_all add: demo_dashboard_def login_resume_def loadDashboard_def axios_def speak_def
          toast_success_def App_def)
  from t i have ne: "trim (inputMessage (demo_dashboard ''hi'')) \<noteq> []" by simp
  from sendMessage_nonblank [OF ne, of "''hi''" "''u1''"
      "\<lparr>response = ''Hello'', user_balance = 4000\<rparr>" "sendMessage (demo_dashboard ''hi'')"] ne u m i
  show ?thesis by simp
qed

text \<open>
  C5: after a successful chat exchange a transaction-list request is put in flight if
  and only if the sent message, lowercased, contains \<open>transaction\<close> or contains
  \<open>transfer\<close>; otherwise the requests in flight are as before. The lowercased message
  contains a keyword exactly when the message itself has a stretch that spells the
  keyword with each letter in either case (a capital letter is 32 below its small
  letter). The message tested is the one the chat request carries.
\<close>

theorem sendMessage_refresh:
  "pending (sendMessage_resume m userId (Ok d) s) =
     (if (\<exists>p q. toLowerCase m = p @ ''transaction'' @ q) \<or> (\<exists>p q. toLowerCase m = p @ ''transfer'' @ q)
      then pending s @ [GetTransactions userId 5] else pending s)
   \<and> ((\<exists>p q. toLowerCase m = p @ ''transaction'' @ q)
        \<longleftrightarrow> (\<exists>p w q. m = p @ w @ q
              \<and> list_all2 (\<lambda>c k. c = k \<or> of_char c + 32 = (of_char k :: nat)) w ''transaction''))
   \<and> ((\<exists>p q. toLowerCase m = p @ ''transfer'' @ q)
        \<longleftrightarrow> (\<exists>p w q. m = p @ w @ q
              \<and> list_all2 (\<lambda>c k. c = k \<or> of_char c + 32 = (of_char k :: nat)) w ''transfer''))
   \<and> settle (PostChat m userId sid) (ChatReply (Ok d)) s
        = Some (sendMessage_resume m userId (Ok d) s)"
proof -
  have "pending (sendMessage_resume m userId (Ok d) s) =
     (if (\<exists>p q. toLowerCase m = p @ ''transaction'' @ q) \<or> (\<exists>p q. toLowerCase m = p @ ''transfer'' @ q)
      then pending s @ [GetTransactions userId 5] else pending s)"
    by (simp add: app_defs includes_str_iff Let_def)
  moreover note toLowerCase_contains_iff [OF keywords_lower_case(1), of m]
    toLowerCase_contains_iff [OF keywords_lower_case(2), of m]
  ultimately show ?thesis by simp
qed

text \<open>
  Instances of C5: a message in capitals, one in mixed case, and the balance question
  of the specification.
\<close>

theorem sendMessage_refresh_witness:
  "pending (sendMessage_resume ''SHOW MY TRANSFERS'' ''u1''
       (Ok \<lparr>response = ''None yet'', user_balance = 5000\<rparr>) (App 0 True True))
     = [GetTransactions ''u1'' 5]
   \<and> pending (sendMessage_resume ''Last TransAction?'' ''u1''
       (Ok \<lparr>response = ''None yet'', user_balance = 5000\<rparr>) (App 0 True True))
     = [GetTransactions ''u1'' 5]
   \<and> pending (sendMessage_resume ''What is my balance?'' ''u1''
       (Ok \<lparr>response = ''Your balance is 5000'', user_balance = 5000\<rparr>) (App 0 True True))
     = []"
proof -
  have a: "includes_str (toLowerCase ''SHOW MY TRANSFERS'') ''transfer''" by code_simp
  have a': "includes_str (toLowerCase ''Last TransAction?'') ''transaction''" by code_simp
  have b: "\<not> includes_str (toLowerCase ''What is my balance?'') ''transfer''" by code_simp
  have c: "\<not> includes_str (toLowerCase ''What is my balance?'') ''transaction''" by code_simp
  have p: "pending (App 0 True True) = []" by (simp add: App_def)
  have 1: "pending (sendMessage_resume ''SHOW MY TRANSFERS'' ''u1''
       (Ok \<lparr>response = ''None yet'', user_balance = 5000\<rparr>) (App 0 True True))
     = [GetTransactions ''u1'' 5]"
    using sendMessage_refresh [of "''SHOW MY TRANSFERS''" "''u1''"
      "\<lparr>response = ''None yet'', user_balance = 5000\<rparr>" "App 0 True True"] a p
    by (simp add: includes_str_iff)
  have 2: "pending (sendMessage_resume ''Last TransAction?'' ''u1''
       (Ok \<lparr>response = ''None yet'', user_balance = 5000\<rparr>) (App 0 True True))
     = [GetTransactions ''u1'' 5]"
    using sendMessage_refresh [of "''Last TransAction?''" "''u1''"
      "\<lparr>response = ''None yet'', user_balance = 5000\<rparr>" "App 0 True True"] a' p
    by (simp add: includes_str_iff)
  have 3: "pending (sendMessage_resume ''What is my balance?'' ''u1''
       (Ok \<lparr>response = ''Your balance is 5000'', user_balance = 5000\<rparr>) (App 0 True True))
     = []"
    using sendMessage_refresh [of "''What is my balance?''" "''u1''"
      "\<lparr>response = ''Your balance is 5000'', user_balance = 5000\<rparr>" "App 0 True True"] b c p
    by (simp add: includes_str_iff)
  from 1 2 3 show ?thesis by simp
qed

text \<open>
  C10: for an input message that is empty or consists of white space only,
  \<open>sendMessage\<close> returns the state it was given: no request leaves, no effect is logged
  and no field changes.
\<close>

theorem sendMessage_blank:
  assumes "\<forall>c \<in> set (inputMessage s). isWhiteSpace c"
  shows "sendMessage s = s"
  using assms by (simp add: sendMessage_def trim_empty_iff)

text \<open>An instance of C10: a space and a tab in the chat input.\<close>

theorem sendMessage_blank_witness:
  "inputMessage (demo_dashboard [CHR '' '', CHR 0x09]) = [CHR '' '', CHR 0x09]
   \<and> isWhiteSpace CHR '' '' \<and> isWhiteSpace (CHR 0x09)
   \<and> sendMessage (demo_dashboard [CHR '' '', CHR 0x09]) = demo_dashboard [CHR '' '', CHR 0x09]"
proof -
  have w: "isWhiteSpace CHR '' ''" "isWhiteSpace (CHR 0x09)" by code_simp+
  have i: "inputMessage (demo_dashboard [CHR '' '', CHR 0x09]) = [CHR '' '', CHR 0x09]"
    by (simp add: demo_dashboard_def)
  from w i have h: "\<forall>c \<in> set (inputMessage (demo_dashboard [CHR '' '', CHR 0x09])). isWhiteSpace c"
    by simp
  from sendMessage_blank [OF h] w i show ?thesis by simp
qed

section \<open>Logout\<close>

text \<open>
  C6: from every prior state, whatever its stage, logout sets the stage to \<open>auth\<close>,
  the user to null and the messages to the empty list.
\<close>

theorem logout_resets:
  "stage (logout s) = StAuth \<and> user (logout s) = None \<and> messages (logout s) = []"
  by (simp add: logout_def)

text \<open>An instance of C6: Asha logs out of her dashboard.\<close>

theorem logout_resets_witness:
  "stage (logout (demo_dashboard [])) = StAuth
   \<and> user (logout (demo_dashboard [])) = None
   \<and> messages (logout (demo_dashboard [])) = []"
  using logout_resets [of "demo_dashboard []"] by simp

section \<open>Submitting the phone number\<close>

text \<open>
  C8, as stated, fails: \<open>sendOTP\<close> has no guard on the phone value. On a fresh page,
  where the phone field is empty, pressing the button sends the request, and when the
  backend answers it the stage is \<open>verify-otp\<close>.
\<close>

theorem sendOTP_empty_phone_counterexample:
  "phone (App 0 True True) = []
   \<and> map_option stage (run [ClickSendOtp, Settled 0 (OtpReply (Ok ''123456''))] (App 0 True True))
       = Some StVerifyOtp"
  by (simp add: App_def guarded_def app_defs)

text \<open>
  C8, amended: at stage \<open>auth\<close>, submitting the phone number sends the send-otp request
  with the phone value as it is, empty or not, and leaves the stage as it is; the stage
  becomes \<open>verify-otp\<close> when that request succeeds and does not change when it fails.
\<close>

theorem sendOTP_unguarded:
  "(stage s = StAuth \<longrightarrow> fire ClickSendOtp s = Some (sendOTP s))
   \<and> stage (sendOTP s) = stage s
   \<and> pending (sendOTP s) = pending s @ [PostSendOtp (phone s)]
   \<and> stage (sendOTP_resume (Ok mock_otp) t) = StVerifyOtp
   \<and> stage (sendOTP_resume Failed t) = stage t"
  by (simp add: sendOTP_frame sendOTP_resume_frame guarded_def)

text \<open>An instance of amended C8: the empty phone field of a fresh page.\<close>

theorem sendOTP_unguarded_witness:
  "stage (App 0 True True) = StAuth
   \<and> fire ClickSendOtp (App 0 True True) = Some (sendOTP (App 0 True True))
   \<and> pending (sendOTP (App 0 True True)) = [PostSendOtp []]
   \<and> stage (sendOTP_resume Failed (sendOTP (App 0 True True))) = StAuth"
  using sendOTP_unguarded [of "App 0 True True" "''123456''" "sendOTP (App 0 True True)"]
  by (simp add: App_def)

section \<open>Failing requests\<close>

text \<open>
  C9, as stated, fails for the transaction-list fetch: when it fails, \<open>loadDashboard\<close>
  writes to the console and shows no notification.
\<close>

theorem loadDashboard_silent_counterexample:
  "notifications (loadDashboard_resume Failed (loadDashboard ''u1'' (App 0 True True))) = []
   \<and> effects (loadDashboard_resume Failed (loadDashboard ''u1'' (App 0 True True)))
       = [Http (GetTransactions ''u1'' 5), ConsoleError ''Failed to load transactions'']"
  by (simp add: notifications_def App_def app_defs)

text \<open>
  C9, amended: a failing request of each of the five operations send-otp, verify-otp,
  register, login and chat adds one error notification at its call site; a failing
  transaction-list fetch adds a console error message and no notification.
\<close>

theorem failures_notify:
  "notifications (sendOTP_resume Failed s) = notifications s @ [ToastError ''Failed to send OTP'']
   \<and> notifications (verifyOTP_resume Failed s) = notifications s @ [ToastError ''Invalid OTP'']
   \<and> notifications (register_resume Failed s) = notifications s @ [ToastError ''Registration failed'']
   \<and> notifications (login_resume Failed s) = notifications s @ [ToastError ''Invalid credentials'']
   \<and> notifications (sendMessage_resume m userId Failed s) =
       notifications s @ [ToastError ''Failed to send message'']
   \<and> notifications (loadDashboard_resume Failed s) = notifications s
   \<and> effects (loadDashboard_resume Failed s) = effects s @ [ConsoleError ''Failed to load transactions'']"
  by (simp add: app_defs notifications_def)

text \<open>An instance of amended C9: a failing login on a fresh page.\<close>

theorem failures_notify_witness:
  "notifications (login_resume Failed (App 0 True True)) = [ToastError ''Invalid credentials'']
   \<and> notifications (loadDashboard_resume Failed (App 0 True True)) = []"
  using failures_notify [of "App 0 True True"]
  by (simp add: notifications_def App_def)

section \<open>The user field and the dashboard stage\<close>

text \<open>
  C7, as stated, fails: a reply that arrives late is applied whatever the stage is by
  then. In \<open>stale_run\<close> the reply to a second send-otp request arrives after the login
  has completed: the stage goes back to \<open>verify-otp\<close> while the user stays set.
\<close>

theorem stale_reply_counterexample:
  "map_option stage (run stale_run (App 0 True True)) = Some StVerifyOtp
   \<and> map_option user (run stale_run (App 0 True True)) = Some (Some demo_user)"
  by (simp add: stale_run_def App_def guarded_def app_defs)

text \<open>
  Nor does the stage \<open>dashboard\<close> alone imply a user when requests overlap: in
  \<open>double_login_run\<close> a second login reply, a 2xx body without a user, arrives on the
  dashboard and sets the user to null.
\<close>

lemma double_login_clears_user:
  "map_option stage (run double_login_run (App 0 True True)) = Some StDashboard
   \<and> map_option user (run double_login_run (App 0 True True)) = Some None"
  by (simp add: double_login_run_def App_def guarded_def app_defs)

text \<open>
  C7, amended: in every state reached from the initial session by a run in which no
  authentication request (send-otp, verify-otp, register, login) is submitted while
  another one is in flight, the user is non-null if and only if the stage is
  \<open>dashboard\<close>.
\<close>

theorem user_iff_dashboard:
  assumes "run es (App now rec syn) = Some s" and "no_overlap es (App now rec syn)"
  shows "user s \<noteq> None \<longleftrightarrow> stage s = StDashboard"
proof -
  have "inv2 (App now rec syn)" by (simp add: inv2_def App_def)
  with assms have "inv2 s" by (blast intro: run_inv2)
  then show ?thesis by (simp add: inv2_def)
qed

text \<open>An instance of amended C7: the run \<open>demo_run\<close> ends on the dashboard with Asha set.\<close>

theorem user_iff_dashboard_witness:
  "map_option stage (run demo_run (App 0 True True)) = Some StDashboard
   \<and> map_option user (run demo_run (App 0 True True)) = Some (Some demo_user)
   \<and> no_overlap demo_run (App 0 True True)"
proof -
  have t: "trim ''hello'' = ''hello''" by code_simp
  have a: "\<not> includes_str (toLowerCase ''hello'') ''transaction''" by code_simp
  have b: "\<not> includes_str (toLowerCase ''hello'') ''transfer''" by code_simp
  have st: "map_option stage (run demo_run (App 0 True True)) = Some StDashboard"
    by (simp add: demo_run_def App_def guarded_def app_defs t a b)
  then obtain s where s: "run demo_run (App 0 True True) = Some s" by blast
  have no: "no_overlap demo_run (App 0 True True)"
    by (simp add: demo_run_def App_def guarded_def app_defs overlapping_def auth_click_def t a b)
  from user_iff_dashboard [OF s no] st s have "user s \<noteq> None" by simp
  moreover have "map_option user (run demo_run (App 0 True True)) = Some (Some demo_user)"
    by (simp add: demo_run_def App_def guarded_def app_defs t a b)
  ultimately show ?thesis using no st by simp
qed

end
